theory Spec2Isabelle
  imports Main "HOL-Library.Sublist" "HOL-Library.AList"
begin

section \<open>Text primitives\<close>

text \<open>
  The scraper works on one Python \<open>str\<close>, modelled as a \<open>string\<close> (a list of 8-bit
  characters). The backslash cannot be written inside a string literal, so the two
  characters the scanner cares about get names.
\<close>

abbreviation BSL :: char where "BSL \<equiv> CHR 0x5C"
abbreviation DQ :: char where "DQ \<equiv> CHR 0x22"

text \<open>
  \<open>s.find(sub, start)\<close> for \<open>start \<ge> 0\<close>: the lowest index at or after \<open>start\<close> where
  \<open>sub\<close> occurs, \<open>None\<close> for Python's \<open>-1\<close>.
\<close>

fun find_prefix :: "string \<Rightarrow> string \<Rightarrow> nat option" where
  "find_prefix sub [] = (if sub = [] then Some 0 else None)"
| "find_prefix sub (c # cs) =
     (if prefix sub (c # cs) then Some 0 else map_option Suc (find_prefix sub cs))"

definition str_find :: "string \<Rightarrow> string \<Rightarrow> nat \<Rightarrow> nat option" where
  "str_find s sub start =
     (if length s < start then None
      else map_option (\<lambda>k. start + k) (find_prefix sub (drop start s)))"

text \<open>
  \<open>s.replace(old, new)\<close> for a non-empty \<open>old\<close>: occurrences are replaced from left to
  right and do not overlap. (For an empty \<open>old\<close> the text is returned unchanged here; the
  scraper never passes one.)
\<close>

function str_replace :: "string \<Rightarrow> string \<Rightarrow> string \<Rightarrow> string" where
  "str_replace old new [] = []"
| "str_replace old new (c # cs) =
     (if old \<noteq> [] \<and> prefix old (c # cs)
      then new @ str_replace old new (drop (length old) (c # cs))
      else c # str_replace old new cs)"
  by pat_completeness auto
termination
  by (relation "measure (\<lambda>(old, new, s). length s)") (auto simp: Suc_le_eq)

text \<open>\<open>s.lower()\<close> on the 8-bit code points: A-Z and the accented capitals of Latin-1.\<close>

definition lower_char :: "char \<Rightarrow> char" where
  "lower_char c =
     (let n = of_char c :: nat in
      if (65 \<le> n \<and> n \<le> 90) \<or> (192 \<le> n \<and> n \<le> 222 \<and> n \<noteq> 215)
      then char_of (n + 32) else c)"

definition lower :: "string \<Rightarrow> string" where
  "lower s = map lower_char s"

text \<open>\<open>sub in s\<close> for two strings.\<close>

definition contains :: "string \<Rightarrow> string \<Rightarrow> bool" where
  "contains sub s = (find_prefix sub s \<noteq> None)"

section \<open>Decoded JSON values\<close>

text \<open>
  What \<open>json.loads\<close> returns: \<open>None\<close>, a \<open>bool\<close>, an \<open>int\<close>, a \<open>float\<close>, a \<open>str\<close>, a
  \<open>list\<close> or a \<open>dict\<close>. A dict keeps its insertion order, so it is an association list
  with distinct keys. A float is kept as the literal that denotes it (floating point
  arithmetic is not modelled, and the scraper does none).
\<close>

datatype json =
    JNull
  | JBool bool
  | JInt int
  | JFloat string
  | JStr string
  | JArray "json list"
  | JObject "(string \<times> json) list"

text \<open>\<open>d.get(key, default)\<close>.\<close>

definition dict_get :: "(string \<times> json) list \<Rightarrow> string \<Rightarrow> json \<Rightarrow> json" where
  "dict_get d k dflt = (case map_of d k of None \<Rightarrow> dflt | Some v \<Rightarrow> v)"

text \<open>\<open>isinstance(p, dict)\<close>.\<close>

fun is_dict :: "json \<Rightarrow> bool" where
  "is_dict (JObject m) = True"
| "is_dict _ = False"

section \<open>The JSON decoder of the standard library\<close>

text \<open>
  \<open>json.loads\<close> is not part of the repository; this is a recursive-descent model of it
  on 8-bit text. It follows the decoder of CPython: blanks are space, tab, newline and
  carriage return; a number is \<open>-?(0|[1-9][0-9]*)(.[0-9]+)?([eE][-+]?[0-9]+)?\<close>, an \<open>int\<close>
  without fraction and exponent and a \<open>float\<close> otherwise; \<open>NaN\<close>, \<open>Infinity\<close> and
  \<open>-Infinity\<close> are accepted; a string may not contain a raw control character; a later
  duplicate key overwrites the value of the earlier one. A \<open>\uXXXX\<close> escape above
  \<open>0xFF\<close> has no 8-bit character and is refused here. The recursion is driven by fuel,
  which \<open>json_loads\<close> sets from the length of the text.
\<close>

definition is_ws :: "char \<Rightarrow> bool" where
  "is_ws c = (c = CHR '' '' \<or> c = CHR 0x09 \<or> c = CHR 0x0A \<or> c = CHR 0x0D)"

definition skip_ws :: "string \<Rightarrow> string" where
  "skip_ws s = dropWhile is_ws s"

definition is_digit :: "char \<Rightarrow> bool" where
  "is_digit c = (let n = of_char c :: nat in 48 \<le> n \<and> n \<le> 57)"

definition digit_val :: "char \<Rightarrow> nat" where
  "digit_val c = of_char c - 48"

definition nat_of_digits :: "string \<Rightarrow> nat" where
  "nat_of_digits ds = foldl (\<lambda>acc c. 10 * acc + digit_val c) 0 ds"

definition hex_val :: "char \<Rightarrow> nat option" where
  "hex_val c =
     (let n = of_char c :: nat in
      if 48 \<le> n \<and> n \<le> 57 then Some (n - 48)
      else if 65 \<le> n \<and> n \<le> 70 then Some (n - 55)
      else if 97 \<le> n \<and> n \<le> 102 then Some (n - 87)
      else None)"

fun hex4 :: "string \<Rightarrow> nat option" where
  "hex4 [a, b, c, d] =
     (case (hex_val a, hex_val b, hex_val c, hex_val d) of
        (Some x, Some y, Some z, Some w) \<Rightarrow> Some (((x * 16 + y) * 16 + z) * 16 + w)
      | _ \<Rightarrow> None)"
| "hex4 _ = None"

definition simple_escape :: "char \<Rightarrow> char option" where
  "simple_escape e =
     (if e = DQ then Some DQ
      else if e = BSL then Some BSL
      else if e = CHR ''/'' then Some (CHR ''/'')
      else if e = CHR ''b'' then Some (CHR 0x08)
      else if e = CHR ''f'' then Some (CHR 0x0C)
      else if e = CHR ''n'' then Some (CHR 0x0A)
      else if e = CHR ''r'' then Some (CHR 0x0D)
      else if e = CHR ''t'' then Some (CHR 0x09)
      else None)"

text \<open>The body of a string literal, after its opening quote.\<close>

function parse_str :: "string \<Rightarrow> (string \<times> string) option" where
  "parse_str [] = None"
| "parse_str (c # cs) =
     (if c = DQ then Some ([], cs)
      else if c = BSL then
        (case cs of
           [] \<Rightarrow> None
         | e # rest \<Rightarrow>
             if e = CHR ''u'' then
               (case hex4 (take 4 rest) of
                  None \<Rightarrow> None
                | Some n \<Rightarrow>
                    if n < 256
                    then map_option (\<lambda>(s, r). (char_of n # s, r)) (parse_str (drop 4 rest))
                    else None)
             else
               (case simple_escape e of
                  None \<Rightarrow> None
                | Some x \<Rightarrow> map_option (\<lambda>(s, r). (x # s, r)) (parse_str rest)))
      else if (of_char c :: nat) < 32 then None
      else map_option (\<lambda>(s, r). (c # s, r)) (parse_str cs))"
  by pat_completeness auto
termination
  by (relation "measure length") auto

definition parse_number :: "string \<Rightarrow> (json \<times> string) option" where
  "parse_number s =
     (let neg = (s \<noteq> [] \<and> hd s = CHR ''-'');
          s1 = (if neg then tl s else s);
          ip = (if s1 \<noteq> [] \<and> hd s1 = CHR ''0'' then ''0'' else takeWhile is_digit s1);
          s2 = drop (length ip) s1;
          fr = (if 2 \<le> length s2 \<and> hd s2 = CHR ''.'' \<and> is_digit (s2 ! 1)
                then CHR ''.'' # takeWhile is_digit (tl s2) else []);
          s3 = drop (length fr) s2;
          sg = (if 2 \<le> length s3 \<and> (s3 ! 1 = CHR ''+'' \<or> s3 ! 1 = CHR ''-'')
                then [s3 ! 1] else []);
          ed = takeWhile is_digit (drop (Suc (length sg)) s3);
          ex = (if s3 \<noteq> [] \<and> (hd s3 = CHR ''e'' \<or> hd s3 = CHR ''E'') \<and> ed \<noteq> []
                then hd s3 # sg @ ed else []);
          s4 = drop (length ex) s3
      in if ip = [] then None
         else if fr = [] \<and> ex = []
         then Some (JInt (if neg then - int (nat_of_digits ip) else int (nat_of_digits ip)), s4)
         else Some (JFloat ((if neg then ''-'' else []) @ ip @ fr @ ex), s4))"

text \<open>\<open>dict(pairs)\<close>: a repeated key keeps its first position and takes the last value.\<close>

definition dict_of :: "(string \<times> json) list \<Rightarrow> (string \<times> json) list" where
  "dict_of ps = foldl (\<lambda>d (k, v). AList.update k v d) [] ps"

fun parse_value :: "nat \<Rightarrow> string \<Rightarrow> (json \<times> string) option"
  and parse_elems :: "nat \<Rightarrow> string \<Rightarrow> (json list \<times> string) option"
  and parse_members :: "nat \<Rightarrow> string \<Rightarrow> ((string \<times> json) list \<times> string) option"
where
  "parse_value 0 s = None"
| "parse_value (Suc n) s =
     (case s of
        [] \<Rightarrow> None
      | c # cs \<Rightarrow>
          if c = DQ then map_option (\<lambda>(x, r). (JStr x, r)) (parse_str cs)
          else if c = CHR ''{'' then
            (case skip_ws cs of
               [] \<Rightarrow> None
             | d # r \<Rightarrow>
                 if d = CHR ''}'' then Some (JObject [], r)
                 else map_option (\<lambda>(ms, r'). (JObject (dict_of ms), r')) (parse_members n (d # r)))
          else if c = CHR ''['' then
            (case skip_ws cs of
               [] \<Rightarrow> None
             | d # r \<Rightarrow>
                 if d = CHR '']'' then Some (JArray [], r)
                 else map_option (\<lambda>(xs, r'). (JArray xs, r')) (parse_elems n (d # r)))
          else if prefix ''null'' s then Some (JNull, drop 4 s)
          else if prefix ''true'' s then Some (JBool True, drop 4 s)
          else if prefix ''false'' s then Some (JBool False, drop 5 s)
          else if prefix ''NaN'' s then Some (JFloat ''NaN'', drop 3 s)
          else if prefix ''Infinity'' s then Some (JFloat ''Infinity'', drop 8 s)
          else if prefix ''-Infinity'' s then Some (JFloat ''-Infinity'', drop 9 s)
          else parse_number s)"
| "parse_elems 0 s = None"
| "parse_elems (Suc n) s =
     (case parse_value n s of
        None \<Rightarrow> None
      | Some (v, r) \<Rightarrow>
          (case skip_ws r of
             [] \<Rightarrow> None
           | c # r' \<Rightarrow>
               if c = CHR '']'' then Some ([v], r')
               else if c = CHR '','' then
                 map_option (\<lambda>(vs, r''). (v # vs, r'')) (parse_elems n (skip_ws r'))
               else None))"
| "parse_members 0 s = None"
| "parse_members (Suc n) s =
     (case s of
        [] \<Rightarrow> None
      | q # cs \<Rightarrow>
          if q \<noteq> DQ then None
          else
            (case parse_str cs of
               None \<Rightarrow> None
             | Some (k, r) \<Rightarrow>
                 (case skip_ws r of
                    [] \<Rightarrow> None
                  | c # r1 \<Rightarrow>
                      if c \<noteq> CHR '':'' then None
                      else
                        (case parse_value n (skip_ws r1) of
                           None \<Rightarrow> None
                         | Some (v, r2) \<Rightarrow>
                             (case skip_ws r2 of
                                [] \<Rightarrow> None
                              | e # r3 \<Rightarrow>
                                  if e = CHR ''}'' then Some ([(k, v)], r3)
                                  else if e = CHR '','' then
                                    map_option (\<lambda>(ms, r4). ((k, v) # ms, r4))
                                      (parse_members n (skip_ws r3))
                                  else None)))))"

definition json_loads :: "string \<Rightarrow> json option" where
  "json_loads s =
     (case parse_value (Suc (length s)) (skip_ws s) of
        None \<Rightarrow> None
      | Some (v, r) \<Rightarrow> if skip_ws r = [] then Some v else None)"

section \<open>extract_json_polls\<close>

text \<open>The two anchors the locator searches for, and the key part that precedes the bracket.\<close>

definition escaped_anchor :: string where
  "escaped_anchor = [BSL, DQ] @ ''polls'' @ [BSL, DQ] @ '':[''"

definition plain_anchor :: string where
  "plain_anchor = [DQ] @ ''polls'' @ [DQ] @ '':[''"

definition escaped_key :: string where
  "escaped_key = [BSL, DQ] @ ''polls'' @ [BSL, DQ] @ '':''"

definition plain_key :: string where
  "plain_key = [DQ] @ ''polls'' @ [DQ] @ '':''"

text \<open>
  One pass through the body of the \<open>while i < len(html_content)\<close> loop, at an index
  \<open>i\<close> inside the text: either the loop goes on with a new index, bracket count and
  in-string flag, or the bracket count has come back to zero at the closing bracket at
  index \<open>i\<close>.
\<close>

datatype step = Continue nat int bool | Closed nat

definition scan_body :: "string \<Rightarrow> bool \<Rightarrow> nat \<Rightarrow> int \<Rightarrow> bool \<Rightarrow> step" where
  "scan_body html escaped i bracket_count in_string =
     (let c = html ! i in
      if escaped \<and> i + 1 < length html \<and> take 2 (drop i html) = [BSL, DQ]
      then Continue (i + 2) bracket_count (\<not> in_string)
      else
        let in_string' =
              (if \<not> escaped \<and> c = DQ
               then (if 0 < i \<and> html ! (i - 1) = BSL then in_string else \<not> in_string)
               else in_string)
        in if \<not> in_string' then
             if c = CHR ''['' then Continue (i + 1) (bracket_count + 1) in_string'
             else if c = CHR '']'' then
               (if bracket_count - 1 = 0 then Closed i
                else Continue (i + 1) (bracket_count - 1) in_string')
             else Continue (i + 1) bracket_count in_string'
           else Continue (i + 1) bracket_count in_string')"

function scan_loop :: "string \<Rightarrow> bool \<Rightarrow> nat \<Rightarrow> int \<Rightarrow> bool \<Rightarrow> nat option" where
  "scan_loop html escaped i bracket_count in_string =
     (if i < length html then
        (case scan_body html escaped i bracket_count in_string of
           Closed e \<Rightarrow> Some e
         | Continue i' bracket_count' in_string' \<Rightarrow>
             scan_loop html escaped i' bracket_count' in_string')
      else None)"
  by pat_completeness auto
termination
  by (relation "measure (\<lambda>(html, escaped, i, bc, ins). length html - i)")
     (auto simp: scan_body_def Let_def split: if_splits)

text \<open>
  The text handed to the decoder when the loop has reached the closing bracket at index
  \<open>i\<close>: the slice \<open>html_content[array_start:i + 1]\<close>, with the two replacements in
  escaped mode.
\<close>

definition json_text :: "string \<Rightarrow> bool \<Rightarrow> nat \<Rightarrow> nat \<Rightarrow> string" where
  "json_text html escaped array_start i =
     (let json_str = take (i + 1 - array_start) (drop array_start html)
      in if escaped
         then str_replace [BSL, BSL] [BSL] (str_replace [BSL, DQ] [DQ] json_str)
         else json_str)"

text \<open>
  Decoding and filtering. The slice starts at the bracket of the anchor, so a decoded
  value is a list; the last case is the \<open>JSONDecodeError\<close> branch. \<open>None\<close> stands for
  the pair \<open>(None, -1)\<close> of the source.
\<close>

definition decode_span :: "string \<Rightarrow> bool \<Rightarrow> nat \<Rightarrow> nat \<Rightarrow> (json list \<times> nat) option" where
  "decode_span html escaped array_start i =
     (case json_loads (json_text html escaped array_start i) of
        Some (JArray polls) \<Rightarrow> Some (filter is_dict polls, i + 1)
      | _ \<Rightarrow> None)"

text \<open>
  The head of the function: the escaped anchor is searched first, in the whole text
  from \<open>start_pos\<close> on, and the plain one only when there is no escaped one. The result
  is \<open>array_start\<close> and the flag \<open>escaped\<close>.
\<close>

definition locate :: "string \<Rightarrow> nat \<Rightarrow> (nat \<times> bool) option" where
  "locate html_content start_pos =
     (case str_find html_content escaped_anchor start_pos of
        None \<Rightarrow>
          (case str_find html_content plain_anchor start_pos of
             None \<Rightarrow> None
           | Some polls_start \<Rightarrow> Some (polls_start + length plain_key, False))
      | Some polls_start \<Rightarrow> Some (polls_start + length escaped_key, True))"

definition extract_json_polls :: "string \<Rightarrow> nat \<Rightarrow> (json list \<times> nat) option" where
  "extract_json_polls html_content start_pos =
     (case locate html_content start_pos of
        None \<Rightarrow> None
      | Some (array_start, escaped) \<Rightarrow>
          (case scan_loop html_content escaped array_start 0 False of
             None \<Rightarrow> None
           | Some i \<Rightarrow> decode_span html_content escaped array_start i))"

section \<open>extract_all_polls\<close>

text \<open>
  The \<open>while True\<close> loop. It is defined as a partial function, so that its termination
  is a theorem and not an assumption: \<open>None\<close> would mean that the loop runs forever.
\<close>

partial_function (option) extract_all_loop :: "string \<Rightarrow> nat \<Rightarrow> json list \<Rightarrow> json list option" where
  "extract_all_loop html_content start_pos all_polls =
     (case extract_json_polls html_content start_pos of
        None \<Rightarrow> Some all_polls
      | Some (polls, end_pos) \<Rightarrow> extract_all_loop html_content end_pos (all_polls @ polls))"

declare extract_all_loop.simps [code]

text \<open>
  The result of a run that returns: \<open>Some recs\<close> for a non-empty list and \<open>None\<close> for
  Python's \<open>None\<close> (\<open>return all_polls if all_polls else None\<close>).
\<close>

definition extract_all_polls :: "string \<Rightarrow> json list option option" where
  "extract_all_polls html_content =
     map_option (\<lambda>all_polls. if all_polls \<noteq> [] then Some all_polls else None)
       (extract_all_loop html_content 0 [])"

section \<open>format_polls_data\<close>

datatype error = TypeError | AttributeError

text \<open>
  \<open>for candidate in candidates\<close>: a list gives its elements, a dict its keys, a string
  its characters; anything else is not iterable.
\<close>

fun py_iter :: "json \<Rightarrow> error + json list" where
  "py_iter (JArray xs) = Inr xs"
| "py_iter (JObject m) = Inr (map (\<lambda>(k, v). JStr k) m)"
| "py_iter (JStr s) = Inr (map (\<lambda>c. JStr [c]) s)"
| "py_iter _ = Inl TypeError"

text \<open>
  The loop over the candidates, with the two variables it assigns. Only a dict has
  \<open>get\<close> and only a string has \<open>lower\<close>.
\<close>

fun candidates_loop :: "json list \<Rightarrow> json \<Rightarrow> json \<Rightarrow> error + (json \<times> json)" where
  "candidates_loop [] approve disapprove = Inr (approve, disapprove)"
| "candidates_loop (candidate # rest) approve disapprove =
     (case candidate of
        JObject m \<Rightarrow>
          (case dict_get m ''name'' (JStr []) of
             JStr nm \<Rightarrow>
               (let name = lower nm;
                    val = dict_get m ''value'' (JStr [])
                in if contains ''approve'' name \<and> \<not> contains ''disapprove'' name
                   then candidates_loop rest val disapprove
                   else if contains ''disapprove'' name
                   then candidates_loop rest approve val
                   else candidates_loop rest approve disapprove)
           | _ \<Rightarrow> Inl AttributeError)
      | _ \<Rightarrow> Inl AttributeError)"

text \<open>The body of \<open>for poll in polls\<close>: the row of one record.\<close>

definition format_row :: "json \<Rightarrow> error + json list" where
  "format_row poll =
     (case poll of
        JObject m \<Rightarrow>
          (let pollster = dict_get m ''pollster'' (dict_get m ''pollster_group_name'' (JStr []));
               date = dict_get m ''date'' (JStr []);
               sample = dict_get m ''sampleSize'' (JStr [])
           in case py_iter (dict_get m ''candidate'' (JArray [])) of
                Inl e \<Rightarrow> Inl e
              | Inr candidates \<Rightarrow>
                  (case candidates_loop candidates (JStr []) (JStr []) of
                     Inl e \<Rightarrow> Inl e
                   | Inr (approve, disapprove) \<Rightarrow>
                       (let spread_data = dict_get m ''spread'' (JObject []);
                            spread = (case spread_data of
                                        JObject sm \<Rightarrow> dict_get sm ''value'' (JStr [])
                                      | _ \<Rightarrow> JStr [])
                        in Inr [pollster, date, sample, approve, disapprove, spread])))
      | _ \<Rightarrow> Inl AttributeError)"

fun format_rows :: "json list \<Rightarrow> error + json list list" where
  "format_rows [] = Inr []"
| "format_rows (poll # polls) =
     (case format_row poll of
        Inl e \<Rightarrow> Inl e
      | Inr row \<Rightarrow> (case format_rows polls of Inl e \<Rightarrow> Inl e | Inr rows \<Rightarrow> Inr (row # rows)))"

definition headers :: "string list" where
  "headers = [''pollster'', ''date'', ''sample'', ''approve'', ''disapprove'', ''spread'']"

definition format_polls_data :: "json list \<Rightarrow> error + (string list \<times> json list list)" where
  "format_polls_data polls =
     (case format_rows polls of Inl e \<Rightarrow> Inl e | Inr rows \<Rightarrow> Inr (headers, rows))"

section \<open>Example documents\<close>

definition doc_plain :: string where
  \<open>doc_plain = ''"polls":[{"a":1}]''\<close>

definition doc_none :: string where
  "doc_none = ''<html><body>no data</body></html>''"






definition doc_brackets :: string where
  \<open>doc_brackets = ''"polls":[{"a":"]["}]''\<close>

section \<open>Notions of the specification\<close>

text \<open>
  The arrays that the aggregator discovers from an offset on, each with its records and
  its end offset: every search starts at the end offset of the array before, and the
  last search finds nothing.
\<close>

fun discovered :: "string \<Rightarrow> nat \<Rightarrow> (json list \<times> nat) list \<Rightarrow> bool" where
  "discovered html start_pos [] = (extract_json_polls html start_pos = None)"
| "discovered html start_pos ((polls, end_pos) # rest) =
     (extract_json_polls html start_pos = Some (polls, end_pos) \<and> discovered html end_pos rest)"

text \<open>
  The quote-toggle rule of each mode, stated on the text alone: in escaped mode the
  two-character sequence backslash, quote toggles at the index of its backslash; in
  unescaped mode a quote toggles unless a backslash stands right before it. An offset
  is inside a string literal when an odd number of toggles lies between the start of
  the array and it; the brackets counted are those at offsets outside string literals.
\<close>

definition toggles :: "bool \<Rightarrow> string \<Rightarrow> nat \<Rightarrow> bool" where
  "toggles escaped text j =
     (if escaped then j + 1 < length text \<and> text ! j = BSL \<and> text ! (j + 1) = DQ
      else text ! j = DQ \<and> \<not> (0 < j \<and> text ! (j - 1) = BSL))"

definition inside_string :: "bool \<Rightarrow> string \<Rightarrow> nat \<Rightarrow> nat \<Rightarrow> bool" where
  "inside_string escaped text a k = odd (length (filter (toggles escaped text) [a..<k]))"

definition outside_count :: "bool \<Rightarrow> string \<Rightarrow> char \<Rightarrow> nat \<Rightarrow> nat \<Rightarrow> nat" where
  "outside_count escaped text c a e =
     length (filter (\<lambda>j. text ! j = c \<and> \<not> inside_string escaped text a j) [a..<e])"

text \<open>
  The entries of a candidate list that match a category, as the normalizer tests them:
  the lower-cased name contains \<open>approve\<close> and not \<open>disapprove\<close>, or it contains
  \<open>disapprove\<close>; and the value such an entry carries.
\<close>

fun approve_entry :: "json \<Rightarrow> bool" where
  "approve_entry (JObject e) =
     (case dict_get e ''name'' (JStr []) of
        JStr nm \<Rightarrow> contains ''approve'' (lower nm) \<and> \<not> contains ''disapprove'' (lower nm)
      | _ \<Rightarrow> False)"
| "approve_entry _ = False"

fun disapprove_entry :: "json \<Rightarrow> bool" where
  "disapprove_entry (JObject e) =
     (case dict_get e ''name'' (JStr []) of
        JStr nm \<Rightarrow> contains ''disapprove'' (lower nm)
      | _ \<Rightarrow> False)"
| "disapprove_entry _ = False"

fun entry_value :: "json \<Rightarrow> json" where
  "entry_value (JObject e) = dict_get e ''value'' (JStr [])"
| "entry_value _ = JStr []"

definition first_value :: "(json \<Rightarrow> bool) \<Rightarrow> json list \<Rightarrow> json" where
  "first_value P cs = (if filter P cs = [] then JStr [] else entry_value (hd (filter P cs)))"

definition last_value :: "(json \<Rightarrow> bool) \<Rightarrow> json list \<Rightarrow> json" where
  "last_value P cs = (if filter P cs = [] then JStr [] else entry_value (last (filter P cs)))"

fun is_text :: "json \<Rightarrow> bool" where
  "is_text (JStr s) = True"
| "is_text _ = False"



text \<open>The spread column of a record.\<close>

definition spread_of :: "(string \<times> json) list \<Rightarrow> json" where
  "spread_of m =
     (case dict_get m ''spread'' (JObject []) of
        JObject sm \<Rightarrow> dict_get sm ''value'' (JStr [])
      | _ \<Rightarrow> JStr [])"

section \<open>Example records\<close>

definition two_approve_candidates :: "json list" where
  "two_approve_candidates =
     [JObject [(''name'', JStr ''Approve''), (''value'', JInt 45)],
      JObject [(''name'', JStr ''Strongly Approve''), (''value'', JInt 20)],
      JObject [(''name'', JStr ''Disapprove''), (''value'', JInt 50)]]"

definition poll_two_approve :: json where
  "poll_two_approve =
     JObject [(''pollster'', JStr ''Acme''), (''candidate'', JArray two_approve_candidates)]"

definition poll_sample :: json where
  "poll_sample = JObject [(''pollster'', JStr ''Acme''), (''sampleSize'', JInt 500)]"



section \<open>The end-to-end example\<close>

text \<open>
  The escaped blob of the example: every quote of the JSON text is written backslash,
  quote. \<open>escq s\<close> is \<open>s\<close> between two such escaped quotes.
\<close>

definition escq :: "string \<Rightarrow> string" where
  "escq s = [BSL, DQ] @ s @ [BSL, DQ]"

definition blob_array :: string where
  "blob_array =
     ''[{'' @ escq ''pollster'' @ '':'' @ escq ''Acme'' @ '','' @
     escq ''date'' @ '':'' @ escq ''2024-01-01'' @ '','' @
     escq ''sampleSize'' @ '':500,'' @
     escq ''candidate'' @ '':[{'' @ escq ''name'' @ '':'' @ escq ''Approve'' @ '','' @
     escq ''value'' @ '':45},{'' @ escq ''name'' @ '':'' @ escq ''Disapprove'' @ '','' @
     escq ''value'' @ '':50}],'' @
     escq ''spread'' @ '':{'' @ escq ''value'' @ '':-5}}]''"

definition esc_blob :: string where
  "esc_blob = escq ''polls'' @ '':'' @ blob_array"

definition acme_record :: json where
  "acme_record =
     JObject
       [(''pollster'', JStr ''Acme''), (''date'', JStr ''2024-01-01''),
        (''sampleSize'', JInt 500),
        (''candidate'', JArray
           [JObject [(''name'', JStr ''Approve''), (''value'', JInt 45)],
            JObject [(''name'', JStr ''Disapprove''), (''value'', JInt 50)]]),
        (''spread'', JObject [(''value'', JInt (- 5))])]"

section \<open>Properties\<close>

subsection \<open>Offsets and progress\<close>

declare scan_loop.simps [simp del]

lemma scan_body_advances:
  "scan_body html escaped i bc ins = Continue i' bc' ins' \<Longrightarrow> i < i'"
  by (auto simp: scan_body_def Let_def split: if_splits)

lemma scan_body_Closed: "scan_body html escaped i bc ins = Closed e \<Longrightarrow> e = i"
  by (auto simp: scan_body_def Let_def split: if_splits)

lemma scan_loop_bounds:
  "scan_loop html escaped i bc ins = Some e \<Longrightarrow> i \<le> e \<and> e < length html"
proof (induction html escaped i bc ins rule: scan_loop.induct)
  case (1 html escaped i bc ins)
  from "1.prems" have lt: "i < length html"
    by (subst (asm) scan_loop.simps) (simp split: if_splits)
  show ?case
  proof (cases "scan_body html escaped i bc ins")
    case (Closed e')
    with "1.prems" lt have "e = e'" by (subst (asm) scan_loop.simps) simp
    with Closed lt show ?thesis by (auto dest: scan_body_Closed)
  next
    case (Continue i' bc' ins')
    with "1.prems" lt have "scan_loop html escaped i' bc' ins' = Some e"
      by (subst (asm) scan_loop.simps) simp
    with "1.IH" [OF lt Continue] have "i' \<le> e \<and> e < length html" by simp
    with scan_body_advances [OF Continue] show ?thesis by simp
  qed
qed

lemma find_prefix_bound:
  "find_prefix sub s = Some k \<Longrightarrow> k + length sub \<le> length s"
proof (induction s arbitrary: k)
  case Nil
  then show ?case by (simp split: if_splits)
next
  case (Cons c cs)
  then show ?case by (auto split: if_splits dest: prefix_length_le)
qed

lemma str_find_bounds:
  "str_find s sub start = Some k \<Longrightarrow> start \<le> k \<and> k + length sub \<le> length s"
  by (auto simp: str_find_def split: if_splits dest!: find_prefix_bound)

lemma locate_bounds:
  "locate html start_pos = Some (a, m) \<Longrightarrow> start_pos < a \<and> a < length html"
  by (auto simp: locate_def escaped_anchor_def plain_anchor_def escaped_key_def plain_key_def
       split: option.splits dest!: str_find_bounds)

lemma decode_span_end: "decode_span html m a i = Some (ps, e) \<Longrightarrow> e = i + 1"
  by (auto simp: decode_span_def split: option.splits json.splits)

lemma extract_json_polls_progress:
  "extract_json_polls html start_pos = Some (ps, e) \<Longrightarrow> start_pos < e \<and> e \<le> length html"
  by (fastforce simp: extract_json_polls_def split: option.splits
        dest: locate_bounds scan_loop_bounds decode_span_end)

lemma extract_all_loop_returns:
  "\<exists>r. extract_all_loop html start_pos acc = Some r"
proof (induction "length html - start_pos" arbitrary: start_pos acc rule: less_induct)
  case less
  show ?case
  proof (cases "extract_json_polls html start_pos")
    case None
    then show ?thesis by (subst extract_all_loop.simps) simp
  next
    case (Some pe)
    obtain ps e where pe: "pe = (ps, e)" by (cases pe)
    from Some pe extract_json_polls_progress have "start_pos < e \<and> e \<le> length html" by blast
    then have "length html - e < length html - start_pos" by arith
    from less [OF this] obtain r where "extract_all_loop html e (acc @ ps) = Some r" by blast
    with Some pe show ?thesis by (subst extract_all_loop.simps) simp
  qed
qed

subsection \<open>Termination of the aggregator\<close>

text \<open>
  C6. For every text, \<open>extract_all_polls\<close> returns: every successful call of
  \<open>extract_json_polls\<close> gives an end offset strictly greater than the offset it was
  called with and at most the length of the text, so the search offset of the loop
  strictly increases below a fixed bound.
\<close>

theorem extract_all_polls_terminates:
  "(\<exists>r. extract_all_polls html = Some r) \<and>
   (\<forall>start_pos ps e. extract_json_polls html start_pos = Some (ps, e) \<longrightarrow>
      start_pos < e \<and> e \<le> length html)"
proof
  from extract_all_loop_returns [of html 0 "[]"]
  show "\<exists>r. extract_all_polls html = Some r"
    by (auto simp: extract_all_polls_def)
next
  show "\<forall>start_pos ps e. extract_json_polls html start_pos = Some (ps, e) \<longrightarrow>
      start_pos < e \<and> e \<le> length html"
    using extract_json_polls_progress by blast
qed

theorem extract_all_polls_terminates_witness:
  "extract_json_polls doc_plain 0 = Some ([JObject [(''a'', JInt 1)]], 17) \<and>
   (0::nat) < 17 \<and> 17 \<le> length doc_plain \<and>
   extract_all_polls doc_plain = Some (Some [JObject [(''a'', JInt 1)]])"
proof -
  have ev: "extract_json_polls doc_plain 0 = Some ([JObject [(''a'', JInt 1)]], 17)"
    by code_simp
  have res: "extract_all_polls doc_plain = Some (Some [JObject [(''a'', JInt 1)]])"
    by code_simp
  from extract_all_polls_terminates [of doc_plain] ev
  have "(0::nat) < 17 \<and> 17 \<le> length doc_plain" by blast
  with ev res show ?thesis by blast
qed

subsection \<open>A document without anchors\<close>

lemma locate_None:
  "str_find html escaped_anchor start_pos = None \<Longrightarrow>
   str_find html plain_anchor start_pos = None \<Longrightarrow> locate html start_pos = None"
  by (simp add: locate_def)

text \<open>
  C2 (as amended). For every text in which neither the escaped nor the plain anchor
  occurs, \<open>extract_all_polls\<close> returns, raises nothing, and its value is Python's
  \<open>None\<close> (the last line of the function turns the empty list into \<open>None\<close>), not an
  empty list.
\<close>

theorem no_anchor_returns_None:
  "str_find html escaped_anchor 0 = None \<Longrightarrow> str_find html plain_anchor 0 = None \<Longrightarrow>
   extract_all_polls html = Some None"
proof -
  assume "str_find html escaped_anchor 0 = None" "str_find html plain_anchor 0 = None"
  then have "extract_json_polls html 0 = None"
    by (simp add: extract_json_polls_def locate_None)
  then have "extract_all_loop html 0 [] = Some []"
    by (subst extract_all_loop.simps) simp
  then show ?thesis by (simp add: extract_all_polls_def)
qed

theorem no_anchor_returns_None_witness:
  "str_find doc_none escaped_anchor 0 = None \<and> str_find doc_none plain_anchor 0 = None \<and>
   extract_all_polls doc_none = Some None"
proof -
  have a: "str_find doc_none escaped_anchor 0 = None" by code_simp
  have b: "str_find doc_none plain_anchor 0 = None" by code_simp
  from no_anchor_returns_None [OF a b] a b show ?thesis by simp
qed

text \<open>
  The claim as written asks for an empty sequence; on the empty text, which has no
  anchor, the value is not the empty list.
\<close>

theorem no_anchor_empty_list_counterexample:
  "str_find [] escaped_anchor 0 = None \<and> str_find [] plain_anchor 0 = None \<and>
   extract_all_polls [] \<noteq> Some (Some [])"
  by code_simp

subsection \<open>Spans without records\<close>



subsection \<open>Several arrays\<close>

lemma extract_all_loop_discovered:
  "discovered html start_pos spans \<Longrightarrow>
   extract_all_loop html start_pos acc = Some (acc @ concat (map fst spans))"
proof (induction spans arbitrary: start_pos acc)
  case Nil
  then show ?case by (subst extract_all_loop.simps) simp
next
  case (Cons sp spans)
  obtain polls e where sp: "sp = (polls, e)" by (cases sp)
  with Cons.prems have a: "extract_json_polls html start_pos = Some (polls, e)"
    and b: "discovered html e spans" by simp_all
  from Cons.IH [OF b, of "acc @ polls"] a sp show ?case
    by (subst extract_all_loop.simps) simp
qed





subsection \<open>The quote rule of escaped mode\<close>



subsection \<open>The balance invariant\<close>

lemma take2_drop:
  "i + 1 < length t \<Longrightarrow> take 2 (drop i t) = [t ! i, t ! (i + 1)]"
  by (simp add: take_Suc_conv_app_nth numeral_2_eq_2)

lemma inside_string_Suc:
  "a \<le> i \<Longrightarrow> inside_string m t a (Suc i) = (inside_string m t a i \<noteq> toggles m t i)"
  by (simp add: inside_string_def)

lemma outside_count_Suc:
  "a \<le> i \<Longrightarrow> outside_count m t c a (Suc i) =
     outside_count m t c a i + (if t ! i = c \<and> \<not> inside_string m t a i then 1 else 0)"
  by (simp add: outside_count_def)

lemma scan_body_spec:
  assumes "i < length t" and "a \<le> i"
    and "ins = inside_string m t a i"
    and "bc = int (outside_count m t (CHR ''['') a i) - int (outside_count m t (CHR '']'') a i)"
  shows "case scan_body t m i bc ins of
           Continue i' bc' ins' \<Rightarrow>
             a \<le> i' \<and> ins' = inside_string m t a i' \<and>
             bc' = int (outside_count m t (CHR ''['') a i') - int (outside_count m t (CHR '']'') a i')
         | Closed e \<Rightarrow>
             e = i \<and>
             outside_count m t (CHR ''['') a (Suc i) = outside_count m t (CHR '']'') a (Suc i) \<and>
             \<not> inside_string m t a (Suc i)"
proof (cases "m \<and> i + 1 < length t \<and> take 2 (drop i t) = [BSL, DQ]")
  case True
  then have p: "t ! i = BSL" "t ! (i + 1) = DQ" "i + 1 < length t" "m"
    by (auto simp: take2_drop)
  have s: "scan_body t m i bc ins = Continue (i + 2) bc (\<not> ins)"
    using True by (simp add: scan_body_def)
  have t1: "toggles m t i" and t2: "\<not> toggles m t (Suc i)"
    using p by (simp_all add: toggles_def)
  have le: "a \<le> Suc i" using assms(2) by simp
  have i2: "i + 2 = Suc (Suc i)" by simp
  have "inside_string m t a (i + 2) = (\<not> ins)"
    using t1 t2 assms(2,3) le by (simp only: i2 inside_string_Suc) simp
  moreover have "outside_count m t c a (i + 2) = outside_count m t c a i"
    if "c = CHR ''['' \<or> c = CHR '']''" for c
    using that p assms(2) le by (simp only: i2 outside_count_Suc) auto
  ultimately show ?thesis using s assms(2,4) by simp
next
  case False
  define ins' where "ins' = (ins \<noteq> toggles m t i)"
  have tg: "m \<Longrightarrow> \<not> toggles m t i"
    using False by (auto simp: toggles_def take2_drop)
  have ins'_eq: "ins' = (if \<not> m \<and> t ! i = DQ
               then (if 0 < i \<and> t ! (i - 1) = BSL then ins else \<not> ins) else ins)"
    using tg by (cases m) (auto simp: ins'_def toggles_def)
  have nxt: "inside_string m t a (Suc i) = ins'"
    using assms(2,3) by (simp add: inside_string_Suc ins'_def)
  have br: "t ! i = CHR ''['' \<or> t ! i = CHR '']'' \<Longrightarrow> ins' = ins"
    using tg by (cases m) (auto simp: ins'_def toggles_def)
  have sb: "scan_body t m i bc ins =
      (if \<not> ins' then
         if t ! i = CHR ''['' then Continue (i + 1) (bc + 1) ins'
         else if t ! i = CHR '']'' then
           (if bc - 1 = 0 then Closed i else Continue (i + 1) (bc - 1) ins')
         else Continue (i + 1) bc ins'
       else Continue (i + 1) bc ins')"
    by (simp only: scan_body_def Let_def False ins'_eq if_False)
  have oc: "outside_count m t c a (Suc i) =
      outside_count m t c a i + (if t ! i = c \<and> \<not> ins' then 1 else 0)"
    if "c = CHR ''['' \<or> c = CHR '']''" for c
    using that br assms(2,3) by (auto simp: outside_count_Suc)
  have o1: "outside_count m t (CHR ''['') a (Suc i) =
      outside_count m t (CHR ''['') a i + (if t ! i = CHR ''['' \<and> \<not> ins' then 1 else 0)"
    using oc by blast
  have o2: "outside_count m t (CHR '']'') a (Suc i) =
      outside_count m t (CHR '']'') a i + (if t ! i = CHR '']'' \<and> \<not> ins' then 1 else 0)"
    using oc by blast
  show ?thesis
    unfolding sb using assms(2,4) nxt o1 o2
    by (simp split: if_splits)
qed

lemma scan_loop_spec:
  assumes "scan_loop t m i bc ins = Some r" and "a \<le> i"
    and "ins = inside_string m t a i"
    and "bc = int (outside_count m t (CHR ''['') a i) - int (outside_count m t (CHR '']'') a i)"
  shows "outside_count m t (CHR ''['') a (r + 1) = outside_count m t (CHR '']'') a (r + 1) \<and>
         \<not> inside_string m t a (r + 1)"
  using assms
proof (induction t m i bc ins rule: scan_loop.induct)
  case (1 t m i bc ins)
  from "1.prems"(1) have lt: "i < length t"
    by (subst (asm) scan_loop.simps) (simp split: if_splits)
  note sp = scan_body_spec [OF lt "1.prems"(2,3,4)]
  show ?case
  proof (cases "scan_body t m i bc ins")
    case (Closed e)
    with "1.prems"(1) lt have "r = e" by (subst (asm) scan_loop.simps) simp
    with sp Closed show ?thesis by simp
  next
    case (Continue i' bc' ins')
    with "1.prems"(1) lt have "scan_loop t m i' bc' ins' = Some r"
      by (subst (asm) scan_loop.simps) simp
    with "1.IH" [OF lt Continue] sp Continue show ?thesis by simp
  qed
qed

text \<open>
  C4. Whenever the scanner reaches a closing bracket with the depth back at zero, the
  accepted slice \<open>text[array_start:array_end]\<close> (with \<open>array_end\<close> one past that bracket)
  has as many opening as closing brackets outside string literals, by the quote-toggle
  rule of the mode, and no string literal is open at \<open>array_end\<close>.
\<close>

theorem scanner_balance:
  "scan_loop text escaped array_start 0 False = Some i \<Longrightarrow>
   outside_count escaped text (CHR ''['') array_start (i + 1) =
     outside_count escaped text (CHR '']'') array_start (i + 1) \<and>
   \<not> inside_string escaped text array_start (i + 1)"
  by (rule scan_loop_spec [where i = array_start and bc = 0 and ins = False])
     (simp_all add: inside_string_def outside_count_def)

theorem scanner_balance_witness:
  "scan_loop doc_brackets False 8 0 False = Some 19 \<and>
   outside_count False doc_brackets (CHR ''['') 8 20 = 1 \<and>
   outside_count False doc_brackets (CHR '']'') 8 20 = 1 \<and>
   \<not> inside_string False doc_brackets 8 20"
proof -
  have s: "scan_loop doc_brackets False 8 0 False = Some 19" by code_simp
  have c: "outside_count False doc_brackets (CHR ''['') 8 20 = 1" by code_simp
  from scanner_balance [OF s] c s show ?thesis by simp
qed

subsection \<open>The normalizer\<close>

lemma candidates_loop_result:
  "candidates_loop cs a d = Inr (a', d') \<Longrightarrow>
   a' = (if filter approve_entry cs = [] then a else entry_value (last (filter approve_entry cs))) \<and>
   d' = (if filter disapprove_entry cs = [] then d
         else entry_value (last (filter disapprove_entry cs)))"
proof (induction cs arbitrary: a d)
  case Nil
  then show ?case by simp
next
  case (Cons c cs)
  show ?case
  proof (cases c)
    case (JObject e)
    show ?thesis
    proof (cases "dict_get e ''name'' (JStr [])")
      case (JStr nm)
      with Cons.prems JObject Cons.IH show ?thesis
        by (auto simp: Let_def split: if_splits)
    qed (use Cons.prems JObject in simp_all)
  qed (use Cons.prems in simp_all)
qed

lemma format_row_Inr:
  "format_row poll = Inr row \<Longrightarrow>
   \<exists>m cs. poll = JObject m \<and> py_iter (dict_get m ''candidate'' (JArray [])) = Inr cs \<and>
     row = [dict_get m ''pollster'' (dict_get m ''pollster_group_name'' (JStr [])),
            dict_get m ''date'' (JStr []), dict_get m ''sampleSize'' (JStr []),
            last_value approve_entry cs, last_value disapprove_entry cs, spread_of m]"
  by (cases poll)
     (auto simp: format_row_def Let_def last_value_def spread_of_def
           split: sum.splits prod.splits dest!: candidates_loop_result)

lemma format_rows_nth:
  "format_rows polls = Inr rows \<Longrightarrow>
   length rows = length polls \<and> (\<forall>i < length polls. format_row (polls ! i) = Inr (rows ! i))"
proof (induction polls arbitrary: rows)
  case Nil
  then show ?case by simp
next
  case (Cons p ps)
  then show ?case
    by (auto simp: nth_Cons split: sum.splits nat.splits)
qed

text \<open>
  C1 (as amended). For every record of a list that \<open>format_polls_data\<close> normalizes and
  whose \<open>candidate\<close> field is a list, the approve column is the value of the LAST entry
  in list order that matches the approve category, and the disapprove column the value
  of the last entry that matches the disapprove category (the empty string when no
  entry matches): the loop assigns at every match and never leaves early.
\<close>

theorem last_match_wins:
  assumes "format_polls_data polls = Inr (h, rows)" and "i < length polls"
    and "polls ! i = JObject m" and "map_of m ''candidate'' = Some (JArray cs)"
  shows "rows ! i ! 3 = last_value approve_entry cs \<and>
         rows ! i ! 4 = last_value disapprove_entry cs"
proof -
  from assms(1) have "format_rows polls = Inr rows"
    by (simp add: format_polls_data_def split: sum.splits)
  with assms(2) have "format_row (polls ! i) = Inr (rows ! i)"
    by (simp add: format_rows_nth)
  with assms(3,4) show ?thesis
    by (auto simp: dict_get_def dest!: format_row_Inr)
qed

theorem last_match_wins_witness:
  "format_polls_data [poll_two_approve] =
     Inr (headers, [[JStr ''Acme'', JStr [], JStr [], JInt 20, JInt 50, JStr []]]) \<and>
   last_value approve_entry two_approve_candidates = JInt 20 \<and>
   last_value disapprove_entry two_approve_candidates = JInt 50"
proof -
  have a: "format_polls_data [poll_two_approve] =
     Inr (headers, [[JStr ''Acme'', JStr [], JStr [], JInt 20, JInt 50, JStr []]])"
    by code_simp
  have b: "(0::nat) < length [poll_two_approve]" by simp
  have c: "[poll_two_approve] ! 0 =
     JObject [(''pollster'', JStr ''Acme''), (''candidate'', JArray two_approve_candidates)]"
    by (simp add: poll_two_approve_def)
  have d: "map_of [(''pollster'', JStr ''Acme''), (''candidate'', JArray two_approve_candidates)]
     ''candidate'' = Some (JArray two_approve_candidates)"
    by simp
  from last_match_wins [OF a b c d] a show ?thesis by simp
qed

text \<open>
  The claim as written asks for the first matching entry. Two entries of the example
  match the approve category: the first carries 45, the normalizer returns the 20 of
  the second.
\<close>

theorem first_match_counterexample:
  "length (filter approve_entry two_approve_candidates) = 2 \<and>
   first_value approve_entry two_approve_candidates = JInt 45 \<and>
   format_polls_data [poll_two_approve] =
     Inr (headers, [[JStr ''Acme'', JStr [], JStr [], JInt 20, JInt 50, JStr []]])"
  by code_simp

text \<open>
  C3 (as amended). For every list of records that \<open>format_polls_data\<close> normalizes, the
  result is the fixed header and one row of six fields per record, and every field is
  the value the record carries, passed through as it is (a JSON number stays a number;
  nothing is converted to text), or the empty string when the record has no such
  field.
\<close>

theorem rows_pass_values_through:
  "format_polls_data polls = Inr (h, rows) \<Longrightarrow>
   h = headers \<and> length rows = length polls \<and>
   (\<forall>i < length polls. \<exists>m cs.
      polls ! i = JObject m \<and>
      py_iter (dict_get m ''candidate'' (JArray [])) = Inr cs \<and>
      rows ! i = [dict_get m ''pollster'' (dict_get m ''pollster_group_name'' (JStr [])),
                  dict_get m ''date'' (JStr []), dict_get m ''sampleSize'' (JStr []),
                  last_value approve_entry cs, last_value disapprove_entry cs, spread_of m])"
proof -
  assume a: "format_polls_data polls = Inr (h, rows)"
  then have r: "format_rows polls = Inr rows" and h: "h = headers"
    by (auto simp: format_polls_data_def split: sum.splits)
  from format_rows_nth [OF r] have len: "length rows = length polls"
    and nth: "\<And>i. i < length polls \<Longrightarrow> format_row (polls ! i) = Inr (rows ! i)"
    by simp_all
  show ?thesis
  proof (intro conjI allI impI)
    fix i assume "i < length polls"
    from format_row_Inr [OF nth [OF this]]
    show "\<exists>m cs.
      polls ! i = JObject m \<and>
      py_iter (dict_get m ''candidate'' (JArray [])) = Inr cs \<and>
      rows ! i = [dict_get m ''pollster'' (dict_get m ''pollster_group_name'' (JStr [])),
                  dict_get m ''date'' (JStr []), dict_get m ''sampleSize'' (JStr []),
                  last_value approve_entry cs, last_value disapprove_entry cs, spread_of m]" .
  qed (rule h, rule len)
qed

theorem rows_pass_values_through_witness:
  "format_polls_data [poll_sample] =
     Inr (headers, [[JStr ''Acme'', JStr [], JInt 500, JStr [], JStr [], JStr []]]) \<and>
   length [[JStr ''Acme'', JStr [], JInt 500, JStr [], JStr [], JStr []]] = length [poll_sample]"
proof -
  have a: "format_polls_data [poll_sample] =
     Inr (headers, [[JStr ''Acme'', JStr [], JInt 500, JStr [], JStr [], JStr []]])"
    by code_simp
  from rows_pass_values_through [OF a]
  have "length [[JStr ''Acme'', JStr [], JInt 500, JStr [], JStr [], JStr []]] = length [poll_sample]"
    by blast
  with a show ?thesis by blast
qed

text \<open>
  The claim as written asks for text in every field. The sample size of the example is
  the JSON number 500, and the row carries that number, not a string.
\<close>

theorem number_field_counterexample:
  "format_polls_data [poll_sample] =
     Inr (headers, [[JStr ''Acme'', JStr [], JInt 500, JStr [], JStr [], JStr []]]) \<and>
   \<not> list_all is_text [JStr ''Acme'', JStr [], JInt 500, JStr [], JStr [], JStr []]"
  by code_simp







subsection \<open>The end-to-end example\<close>

lemma esc_blob_key: "esc_blob = escaped_key @ blob_array"
  by (simp add: esc_blob_def escaped_key_def escq_def)

lemma blob_array_len: "length blob_array = 185"
  by code_simp

lemma escaped_key_len: "length escaped_key = 10"
  by (simp add: escaped_key_def)

lemma blob_scan: "scan_loop blob_array True 0 0 False = Some 184"
  by code_simp

lemma blob_decode:
  "json_loads (str_replace [BSL, BSL] [BSL] (str_replace [BSL, DQ] [DQ] blob_array)) =
     Some (JArray [acme_record])"
  by code_simp

lemma acme_row:
  "format_polls_data [acme_record] =
     Inr (headers, [[JStr ''Acme'', JStr ''2024-01-01'', JInt 500, JInt 45, JInt 50, JInt (- 5)]])"
  by code_simp

lemma pair_cond:
  "(i + 1 < length t \<and> take 2 (drop i t) = [BSL, DQ]) =
   (i + 1 < length t \<and> t ! i = BSL \<and> t ! (i + 1) = DQ)"
  by (auto simp: take2_drop)

lemma scan_body_shift:
  "i < length s \<Longrightarrow>
   scan_body (pre @ s) True (length pre + i) bc ins =
     (case scan_body s True i bc ins of
        Continue i' bc' ins' \<Rightarrow> Continue (length pre + i') bc' ins'
      | Closed e \<Rightarrow> Closed (length pre + e))"
  by (simp add: scan_body_def Let_def)

lemma scan_loop_shift:
  "scan_loop (pre @ s) True (length pre + i) bc ins =
     map_option (\<lambda>e. length pre + e) (scan_loop s True i bc ins)"
proof (induction s True i bc ins rule: scan_loop.induct)
  case (1 s i bc ins)
  note L = scan_loop.simps [of "pre @ s" True "length pre + i" bc ins]
  note R = scan_loop.simps [of s True i bc ins]
  show ?case
  proof (cases "i < length s")
    case False
    then show ?thesis by (simp add: L R)
  next
    case True
    show ?thesis
    proof (cases "scan_body s True i bc ins")
      case (Closed e)
      with True show ?thesis by (simp add: L R scan_body_shift)
    next
      case (Continue i' bc' ins')
      with True "1.hyps" [OF True Continue] show ?thesis
        by (simp add: L R scan_body_shift)
    qed
  qed
qed

lemma scan_body_extend:
  "i < length s \<Longrightarrow> i + 1 < length s \<or> s ! i \<noteq> BSL \<Longrightarrow>
   scan_body (s @ post) True i bc ins = scan_body s True i bc ins"
  unfolding scan_body_def pair_cond
  by (auto simp: Let_def nth_append)

lemma scan_loop_extend:
  "scan_loop s True i bc ins = Some e \<Longrightarrow> scan_loop (s @ post) True i bc ins = Some e"
proof (induction s True i bc ins rule: scan_loop.induct)
  case (1 s i bc ins)
  note L = scan_loop.simps [of "s @ post" True i bc ins]
  note R = scan_loop.simps [of s True i bc ins]
  from "1.prems" have lt: "i < length s"
    by (simp add: R split: if_splits)
  show ?case
  proof (cases "i + 1 < length s \<or> s ! i \<noteq> BSL")
    case True
    note same = scan_body_extend [OF lt True, of post bc ins]
    show ?thesis
    proof (cases "scan_body s True i bc ins")
      case (Closed e')
      with "1.prems" lt have "e' = e" by (simp add: R)
      with Closed lt same show ?thesis by (simp add: L)
    next
      case (Continue i' bc' ins')
      with "1.prems" lt have "scan_loop s True i' bc' ins' = Some e"
        by (simp add: R)
      from "1.hyps" [OF lt Continue this] Continue lt same show ?thesis
        by (simp add: L)
    qed
  next
    case False
    then have last: "i + 1 = length s" and b: "s ! i = BSL" using lt by auto
    then have "scan_body s True i bc ins = Continue (i + 1) bc ins"
      by (simp add: scan_body_def Let_def)
    with "1.prems" lt last have "scan_loop s True (length s) bc ins = Some e"
      by (simp add: R)
    then show ?thesis
      by (simp add: scan_loop.simps [of s True "length s" bc ins])
  qed
qed

lemma find_prefix_first:
  assumes "find_prefix sub pre = None"
    and "\<And>p us. p \<noteq> [] \<Longrightarrow> us \<noteq> [] \<Longrightarrow> sub = p @ us \<Longrightarrow> \<not> prefix us rest"
    and "prefix sub rest"
  shows "find_prefix sub (pre @ rest) = Some (length pre)"
  using assms(1)
proof (induction pre)
  case Nil
  from assms(3) show ?case by (cases rest) auto
next
  case (Cons c cs)
  from Cons.prems have np: "\<not> prefix sub (c # cs)" and rec: "find_prefix sub cs = None"
    by (auto split: if_splits)
  have "\<not> prefix sub ((c # cs) @ rest)"
  proof
    assume "prefix sub ((c # cs) @ rest)"
    then have "prefix sub (c # cs) \<or> (\<exists>us. sub = (c # cs) @ us \<and> prefix us rest)"
      by (simp only: prefix_append)
    with np obtain us where us: "sub = (c # cs) @ us" "prefix us rest"
      by blast
    with np have "us \<noteq> []" by auto
    with assms(2) [of "c # cs" us] us show False by simp
  qed
  with Cons.IH [OF rec] show ?case by simp
qed

lemma escaped_anchor_no_straddle:
  assumes "p \<noteq> []" and "us \<noteq> []" and "escaped_anchor = p @ us"
  shows "\<not> prefix us (BSL # DQ # CHR ''p'' # r)"
  using assms
  by (auto simp: escaped_anchor_def append_eq_Cons_conv Cons_eq_append_conv)

lemma esc_blob_start: "esc_blob @ post = BSL # DQ # CHR ''p'' # drop 3 esc_blob @ post"
  by (simp add: esc_blob_def escq_def)

lemma esc_blob_anchor: "prefix escaped_anchor (esc_blob @ post)"
  by (simp add: esc_blob_def escq_def escaped_anchor_def blob_array_def)

lemma esc_blob_len: "length esc_blob = 195"
  by (simp add: esc_blob_key escaped_key_len blob_array_len)

text \<open>
  C8. For every document made of the escaped blob of the example between a text before
  it that contains no escaped anchor and a text after it that contains no anchor of
  either form, \<open>extract_all_polls\<close> returns exactly the one record of the blob, and
  \<open>format_polls_data\<close> turns it into exactly one row with the values Acme, 2024-01-01,
  500, 45, 50, -5 (the last four as the JSON numbers of the blob). A plain anchor in
  the text before the blob would not matter, since the escaped form is searched first.
\<close>

theorem end_to_end_example:
  assumes "\<not> contains escaped_anchor pre"
    and "\<not> contains escaped_anchor post" and "\<not> contains plain_anchor post"
  shows "extract_all_polls (pre @ esc_blob @ post) = Some (Some [acme_record]) \<and>
         format_polls_data [acme_record] =
           Inr (headers,
                [[JStr ''Acme'', JStr ''2024-01-01'', JInt 500, JInt 45, JInt 50, JInt (- 5)]])"
proof -
  let ?doc = "pre @ esc_blob @ post"
  let ?a = "length pre + 10"
  have split: "?doc = (pre @ escaped_key) @ (blob_array @ post)"
    by (simp add: esc_blob_key)
  have "find_prefix escaped_anchor (pre @ (esc_blob @ post)) = Some (length pre)"
  proof (rule find_prefix_first)
    show "find_prefix escaped_anchor pre = None"
      using assms(1) by (simp add: contains_def)
    show "\<not> prefix us (esc_blob @ post)"
      if "p \<noteq> []" "us \<noteq> []" "escaped_anchor = p @ us" for p us
      using escaped_anchor_no_straddle [OF that] by (subst esc_blob_start)
    show "prefix escaped_anchor (esc_blob @ post)" by (rule esc_blob_anchor)
  qed
  then have loc: "locate ?doc 0 = Some (?a, True)"
    by (simp add: locate_def str_find_def escaped_key_len)
  from scan_loop_extend [OF blob_scan, of post]
  have "scan_loop (blob_array @ post) True 0 0 False = Some 184" .
  with scan_loop_shift [of "pre @ escaped_key" "blob_array @ post" 0 0 False]
  have scan: "scan_loop ?doc True ?a 0 False = Some (?a + 184)"
    by (simp add: split escaped_key_len)
  have "take (?a + 184 + 1 - ?a) (drop ?a ?doc) = blob_array"
    by (simp add: split escaped_key_len blob_array_len)
  then have "json_text ?doc True ?a (?a + 184) =
      str_replace [BSL, BSL] [BSL] (str_replace [BSL, DQ] [DQ] blob_array)"
    by (simp add: json_text_def)
  with blob_decode have "decode_span ?doc True ?a (?a + 184) = Some ([acme_record], ?a + 185)"
    by (simp add: decode_span_def acme_record_def)
  with loc scan have first: "extract_json_polls ?doc 0 = Some ([acme_record], ?a + 185)"
    by (simp add: extract_json_polls_def)
  have "drop (?a + 185) ?doc = post" by (simp add: esc_blob_len)
  moreover have "\<not> length ?doc < ?a + 185" by (simp add: esc_blob_len)
  ultimately have "locate ?doc (?a + 185) = None"
    using assms(2,3) by (simp add: locate_def str_find_def contains_def)
  then have "extract_json_polls ?doc (?a + 185) = None"
    by (simp add: extract_json_polls_def)
  with first have "discovered ?doc 0 [([acme_record], ?a + 185)]" by simp
  from extract_all_loop_discovered [OF this, of "[]"]
  have "extract_all_polls ?doc = Some (Some [acme_record])"
    by (simp add: extract_all_polls_def)
  with acme_row show ?thesis by simp
qed

theorem end_to_end_example_witness:
  "\<not> contains escaped_anchor ''<script>x='' \<and>
   \<not> contains escaped_anchor '';</script>'' \<and> \<not> contains plain_anchor '';</script>'' \<and>
   extract_all_polls (''<script>x='' @ esc_blob @ '';</script>'') = Some (Some [acme_record]) \<and>
   format_polls_data [acme_record] =
     Inr (headers, [[JStr ''Acme'', JStr ''2024-01-01'', JInt 500, JInt 45, JInt 50, JInt (- 5)]])"
proof -
  have a: "\<not> contains escaped_anchor ''<script>x=''" by code_simp
  have b: "\<not> contains escaped_anchor '';</script>''" by code_simp
  have c: "\<not> contains plain_anchor '';</script>''" by code_simp
  from end_to_end_example [OF a b c] a b c show ?thesis by blast
qed

end
